theory Spec2Isabelle
  imports Main
begin

section \<open>Data model (tools/models.py)\<close>

text \<open>
  A \<open>Standard\<close> is a Pydantic model; the processor works on its \<open>model_dump()\<close>, a dict
  that holds every declared field, with \<open>None\<close> for an optional field that was not given.
  The dict is modelled by a record, \<open>std.get("k")\<close> by the field, an optional field by an
  option. The field \<open>id\<close> is called \<open>std_id\<close> here.
\<close>

record standard =
  std_id :: string
  asnIdentifier :: "string option"
  position :: int
  depth :: int
  statementNotation :: "string option"
  description :: string
  ancestorIds :: "string list"
  parentId :: "string option"
  statementLabel :: "string option"
  std_educationLevels :: "string list option"

text \<open>
  A Python dict keeps insertion order; \<open>dict[str, Standard]\<close> is an association list,
  looked up with \<open>map_of\<close>.
\<close>

type_synonym standards_dict = "(string \<times> standard) list"

record document =
  doc_id :: "string option"
  doc_title :: string
  valid :: "string option"
  sourceURL :: "string option"
  doc_asnIdentifier :: "string option"
  publicationStatus :: "string option"

record jurisdiction_ref =
  jur_id :: string
  jur_title :: string

text \<open>
  \<open>StandardSet\<close>, with the type of its nodes as a parameter: the parsed set holds
  \<open>Standard\<close>s, the raw JSON document holds nodes that are not validated yet. The
  \<open>license\<close> and \<open>cspStatus\<close> fields are read nowhere and are left out.
\<close>

record 'n standard_set_of =
  set_id :: string
  title :: string
  subject :: string
  normalizedSubject :: "string option"
  educationLevels :: "string list"
  document :: document
  jurisdiction :: jurisdiction_ref
  standards :: "(string \<times> 'n) list"

type_synonym standard_set = "standard standard_set_of"

datatype error =
    KeyError string
  | ValidationError "(string \<times> string) list"
  | ValueError error

section \<open>Relationship-map builder (tools/pinecone_processor.py)\<close>

definition build_id_to_standard_map :: "standards_dict \<Rightarrow> standards_dict" where
  "build_id_to_standard_map stds = map (\<lambda>(sid, st). (sid, st)) stds"

text \<open>
  \<open>if parent_id not in parent_map: parent_map[parent_id] = []\<close> followed by
  \<open>parent_map[parent_id].append(v)\<close>: a new key goes to the end of the dict, an old
  key keeps its place.
\<close>

fun dict_append :: "('k \<times> 'v list) list \<Rightarrow> 'k \<Rightarrow> 'v \<Rightarrow> ('k \<times> 'v list) list" where
  "dict_append [] k v = [(k, [v])]"
| "dict_append ((k', vs) # rest) k v =
     (if k' = k then (k', vs @ [v]) # rest else (k', vs) # dict_append rest k v)"

definition group_by_parent ::
  "standards_dict \<Rightarrow> (string option \<times> (int \<times> string) list) list" where
  "group_by_parent stds =
     fold (\<lambda>(sid, st) parent_map. dict_append parent_map (parentId st) (position st, sid))
       stds []"

text \<open>Python's \<open>sorted\<close> is stable, as \<open>sort_key\<close> is.\<close>

definition build_parent_to_children_map ::
  "standards_dict \<Rightarrow> (string option \<times> string list) list" where
  "build_parent_to_children_map stds =
     map (\<lambda>(parent_id, children). (parent_id, map snd (sort_key fst children)))
       (group_by_parent stds)"

definition identify_leaf_nodes :: "standards_dict \<Rightarrow> string set" where
  "identify_leaf_nodes stds =
     set (map fst stds) - set (List.map_filter (\<lambda>(sid, st). parentId st) stds)"

definition identify_root_nodes :: "standards_dict \<Rightarrow> string set" where
  "identify_root_nodes stds = set (map fst (filter (\<lambda>(sid, st). parentId st = None) stds))"

section \<open>Hierarchy resolver (tools/pinecone_processor.py)\<close>

text \<open>
  The \<open>while\<close> loop of \<open>find_root_id\<close>. The state is \<open>current\<close> and \<open>visited\<close>; the
  last argument is a ghost counter of the executions of
  \<open>current = id_to_standard[parent_id]\<close>, the parent-following step.
\<close>

function find_root_loop ::
  "standards_dict \<Rightarrow> standard \<Rightarrow> string set \<Rightarrow> nat \<Rightarrow> standard \<times> nat" where
  "find_root_loop id_to_standard current visited n =
     (case parentId current of
        None \<Rightarrow> (current, n)
      | Some parent_id \<Rightarrow>
          if parent_id \<in> visited then (current, n)
          else (case map_of id_to_standard parent_id of
                  None \<Rightarrow> (current, n)
                | Some p \<Rightarrow> find_root_loop id_to_standard p (insert parent_id visited) (Suc n)))"
  by pat_completeness auto
termination
proof (relation "measure (\<lambda>(m, c, v, n). card (fst ` set m - v))")
  show "wf (measure (\<lambda>(m, c, v, n). card (fst ` set m - v)))"
    by simp
next
  fix id_to_standard :: standards_dict and current :: standard and visited :: "string set"
    and n :: nat and parent_id p
  assume nv: "parent_id \<notin> visited" and look: "map_of id_to_standard parent_id = Some p"
  from look have "parent_id \<in> fst ` set id_to_standard"
    by (metis map_of_eq_None_iff option.distinct(1))
  with nv have "fst ` set id_to_standard - insert parent_id visited
      \<subset> fst ` set id_to_standard - visited"
    by blast
  then have "card (fst ` set id_to_standard - insert parent_id visited)
      < card (fst ` set id_to_standard - visited)"
    by (intro psubset_card_mono) simp_all
  then show "((id_to_standard, p, insert parent_id visited, Suc n),
              (id_to_standard, current, visited, n))
      \<in> measure (\<lambda>(m, c, v, n). card (fst ` set m - v))"
    by simp
qed

definition find_root_id :: "standard \<Rightarrow> standards_dict \<Rightarrow> string" where
  "find_root_id st id_to_standard = std_id (fst (find_root_loop id_to_standard st {} 0))"

text \<open>
  The \<open>while\<close> loop of \<open>build_ordered_ancestors\<close>, with the same ghost counter for
  \<open>current_id = id_to_standard[current_id].get("parentId")\<close>.
\<close>

function ancestors_loop ::
  "standards_dict \<Rightarrow> string option \<Rightarrow> string set \<Rightarrow> string list \<Rightarrow> nat
     \<Rightarrow> string list \<times> nat" where
  "ancestors_loop id_to_standard current_id visited ancestors n =
     (case current_id of
        None \<Rightarrow> (ancestors, n)
      | Some c \<Rightarrow>
          if c \<in> visited then (ancestors, n)
          else (case map_of id_to_standard c of
                  Some p \<Rightarrow>
                    ancestors_loop id_to_standard (parentId p) (insert c visited)
                      (ancestors @ [c]) (Suc n)
                | None \<Rightarrow> (ancestors, n)))"
  by pat_completeness auto
termination
proof (relation "measure (\<lambda>(m, c, v, a, n). card (fst ` set m - v))")
  show "wf (measure (\<lambda>(m, c, v, a, n). card (fst ` set m - v)))"
    by simp
next
  fix id_to_standard :: standards_dict and current_id :: "string option"
    and visited :: "string set" and ancestors :: "string list" and n :: nat and c p
  assume nv: "c \<notin> visited" and look: "map_of id_to_standard c = Some p"
  from look have "c \<in> fst ` set id_to_standard"
    by (metis map_of_eq_None_iff option.distinct(1))
  with nv have "fst ` set id_to_standard - insert c visited
      \<subset> fst ` set id_to_standard - visited"
    by blast
  then have "card (fst ` set id_to_standard - insert c visited)
      < card (fst ` set id_to_standard - visited)"
    by (intro psubset_card_mono) simp_all
  then show "((id_to_standard, parentId p, insert c visited, ancestors @ [c], Suc n),
              (id_to_standard, current_id, visited, ancestors, n))
      \<in> measure (\<lambda>(m, c, v, a, n). card (fst ` set m - v))"
    by simp
qed

definition build_ordered_ancestors :: "standard \<Rightarrow> standards_dict \<Rightarrow> string list" where
  "build_ordered_ancestors st id_to_standard =
     rev (fst (ancestors_loop id_to_standard (parentId st) {} [] 0))"

text \<open>The loop equations are unfolded by hand, one iteration at a time.\<close>

declare find_root_loop.simps [simp del]
declare ancestors_loop.simps [simp del]

text \<open>The processor's state, set by \<open>_build_relationship_maps\<close>.\<close>

record processor =
  id_to_standard :: standards_dict
  parent_to_children :: "(string option \<times> string list) list"
  leaf_nodes :: "string set"
  root_nodes :: "string set"

definition build_relationship_maps :: "standards_dict \<Rightarrow> processor" where
  "build_relationship_maps stds =
     \<lparr>id_to_standard = build_id_to_standard_map stds,
      parent_to_children = build_parent_to_children_map stds,
      leaf_nodes = identify_leaf_nodes stds,
      root_nodes = identify_root_nodes stds\<rparr>"

definition compute_sibling_count :: "processor \<Rightarrow> standard \<Rightarrow> int" where
  "compute_sibling_count p st =
     (case map_of (parent_to_children p) (parentId st) of
        None \<Rightarrow> 0
      | Some siblings \<Rightarrow> int (length (filter (\<lambda>s. s \<noteq> std_id st) siblings)))"

section \<open>Content synthesizer\<close>

text \<open>Python's \<open>str\<close> of an int, as the f-string formats \<open>depth\<close>.\<close>

fun str_nat :: "nat \<Rightarrow> string" where
  "str_nat n =
     (if n < 10 then [''0123456789'' ! n]
      else str_nat (n div 10) @ [''0123456789'' ! (n mod 10)])"

definition str_int :: "int \<Rightarrow> string" where
  "str_int i = (if i < 0 then CHR ''-'' # str_nat (nat (- i)) else str_nat (nat i))"

text \<open>Python's truth value of an optional string: \<open>None\<close> and \<open>""\<close> are false.\<close>

definition truthy :: "string option \<Rightarrow> bool" where
  "truthy v = (case v of None \<Rightarrow> False | Some s \<Rightarrow> s \<noteq> [])"

definition format_line :: "standard \<Rightarrow> string" where
  "format_line st =
     (case statementNotation st of
        Some notation \<Rightarrow>
          if notation \<noteq> []
          then ''Depth '' @ str_int (depth st) @ '' ('' @ notation @ ''): '' @ description st
          else ''Depth '' @ str_int (depth st) @ '': '' @ description st
      | None \<Rightarrow> ''Depth '' @ str_int (depth st) @ '': '' @ description st)"

text \<open>
  The loop over \<open>ancestor_ids\<close>; \<open>self.id_to_standard[ancestor_id]\<close> raises
  \<open>KeyError\<close> on a missing key.
\<close>

fun ancestor_lines :: "standards_dict \<Rightarrow> string list \<Rightarrow> string list \<Rightarrow> error + string list" where
  "ancestor_lines m [] lines = Inr lines"
| "ancestor_lines m (ancestor_id # rest) lines =
     (case map_of m ancestor_id of
        None \<Rightarrow> Inl (KeyError ancestor_id)
      | Some ancestor \<Rightarrow> ancestor_lines m rest (lines @ [format_line ancestor]))"

text \<open>Python's \<open>sep.join(lines)\<close>.\<close>

fun join :: "string \<Rightarrow> string list \<Rightarrow> string" where
  "join sep [] = []"
| "join sep [x] = x"
| "join sep (x # y # ys) = x @ sep @ join sep (y # ys)"

definition newline :: string where
  "newline = [CHR 0x0A]"

definition build_content_text :: "processor \<Rightarrow> standard \<Rightarrow> error + string" where
  "build_content_text p st =
     (case ancestor_lines (id_to_standard p)
             (build_ordered_ancestors st (id_to_standard p)) [] of
        Inl e \<Rightarrow> Inl e
      | Inr lines \<Rightarrow> Inr (join newline (lines @ [format_line st])))"

section \<open>Records (tools/pinecone_models.py)\<close>

text \<open>
  \<open>PineconeRecord\<close>. The fields \<open>id\<close>, \<open>subject\<close> and \<open>depth\<close> are called \<open>rec_id\<close>,
  \<open>rec_subject\<close> and \<open>rec_depth\<close> here.
\<close>

record pinecone_record =
  rec_id :: string
  content :: string
  standard_set_id :: string
  standard_set_title :: string
  rec_subject :: string
  normalized_subject :: "string option"
  education_levels :: "string list"
  document_id :: string
  document_valid :: string
  publication_status :: "string option"
  jurisdiction_id :: string
  jurisdiction_title :: string
  asn_identifier :: "string option"
  statement_notation :: "string option"
  statement_label :: "string option"
  rec_depth :: int
  is_leaf :: bool
  is_root :: bool
  parent_id :: "string option"
  root_id :: string
  ancestor_ids :: "string list"
  child_ids :: "string list"
  sibling_count :: int

text \<open>
  Python's \<open>str.split(",")\<close> and \<open>str.strip()\<close>. A \<open>char\<close> stands for a code point
  below 256; \<open>is_space\<close> is \<open>str.isspace\<close> on that range.
\<close>

fun split_on :: "char \<Rightarrow> string \<Rightarrow> string list" where
  "split_on c [] = [[]]"
| "split_on c (x # xs) =
     (if x = c then [] # split_on c xs
      else (case split_on c xs of
              [] \<Rightarrow> [[x]]
            | w # ws \<Rightarrow> (x # w) # ws))"

definition is_space :: "char \<Rightarrow> bool" where
  "is_space c \<longleftrightarrow>
     c \<in> set [CHR 0x09, CHR 0x0A, CHR 0x0B, CHR 0x0C, CHR 0x0D, CHR 0x1C, CHR 0x1D,
               CHR 0x1E, CHR 0x1F, CHR 0x20, CHR 0x85, CHR 0xA0]"

definition strip :: "string \<Rightarrow> string" where
  "strip s = rev (dropWhile is_space (rev (dropWhile is_space s)))"

text \<open>
  The validator \<open>process_education_levels\<close>, on a list of strings (the value the
  processor passes, \<open>StandardSet.educationLevels\<close>). First the flattening loop, then the
  loop that removes duplicates with the set \<open>seen\<close>.
\<close>

fun flatten_loop :: "string list \<Rightarrow> string list \<Rightarrow> string list" where
  "flatten_loop [] flattened = flattened"
| "flatten_loop (item # rest) flattened =
     flatten_loop rest
       (flattened @ map strip (filter (\<lambda>s. strip s \<noteq> []) (split_on CHR '','' item)))"

fun dedupe_loop :: "string list \<Rightarrow> string set \<Rightarrow> string list \<Rightarrow> string list" where
  "dedupe_loop [] seen result = result"
| "dedupe_loop (item # rest) seen result =
     (if item \<notin> seen then dedupe_loop rest (insert item seen) (result @ [item])
      else dedupe_loop rest seen result)"

definition process_education_levels :: "string list \<Rightarrow> string list" where
  "process_education_levels v = dedupe_loop (flatten_loop v []) {} []"

section \<open>Record transformer and batch orchestrator\<close>

text \<open>
  \<open>_transform_standard\<close>. The three node-level optional fields enter \<open>record_data\<close>
  only when truthy and default to \<open>None\<close> in the model otherwise. The constructor
  \<open>PineconeRecord(**record_data)\<close> validates: \<open>document_id\<close> and \<open>document_valid\<close> are
  required strings while \<open>Document.id\<close> and \<open>Document.valid\<close> are optional, so \<open>None\<close>
  there raises a validation error; \<open>education_levels\<close> goes through its validator.
\<close>

definition transform_standard ::
  "processor \<Rightarrow> standard \<Rightarrow> standard_set \<Rightarrow> error + pinecone_record" where
  "transform_standard p st ss =
     (let isroot = (parentId st = None);
          rootid = (if isroot then std_id st else find_root_id st (id_to_standard p));
          ancestorids = build_ordered_ancestors st (id_to_standard p);
          childids = (case map_of (parent_to_children p) (Some (std_id st)) of
                        None \<Rightarrow> [] | Some c \<Rightarrow> c);
          isleaf = (std_id st \<in> leaf_nodes p);
          siblingcount = compute_sibling_count p st
      in case build_content_text p st of
           Inl e \<Rightarrow> Inl e
         | Inr text \<Rightarrow>
             (case doc_id (document ss) of
                None \<Rightarrow> Inl (ValidationError [(std_id st, ''document_id'')])
              | Some did \<Rightarrow>
                  (case valid (document ss) of
                     None \<Rightarrow> Inl (ValidationError [(std_id st, ''document_valid'')])
                   | Some dvalid \<Rightarrow>
                       Inr \<lparr>rec_id = std_id st,
                            content = text,
                            standard_set_id = set_id ss,
                            standard_set_title = title ss,
                            rec_subject = subject ss,
                            normalized_subject = normalizedSubject ss,
                            education_levels = process_education_levels (educationLevels ss),
                            document_id = did,
                            document_valid = dvalid,
                            publication_status = publicationStatus (document ss),
                            jurisdiction_id = jur_id (jurisdiction ss),
                            jurisdiction_title = jur_title (jurisdiction ss),
                            asn_identifier =
                              (if truthy (asnIdentifier st) then asnIdentifier st else None),
                            statement_notation =
                              (if truthy (statementNotation st) then statementNotation st
                               else None),
                            statement_label =
                              (if truthy (statementLabel st) then statementLabel st else None),
                            rec_depth = depth st,
                            is_leaf = isleaf,
                            is_root = isroot,
                            parent_id = parentId st,
                            root_id = rootid,
                            ancestor_ids = ancestorids,
                            child_ids = childids,
                            sibling_count = siblingcount\<rparr>)))"

text \<open>
  The loop of \<open>process_standard_set\<close>: no \<open>try\<close>, so the first exception leaves the
  loop and the function.
\<close>

fun transform_all ::
  "processor \<Rightarrow> standard_set \<Rightarrow> standards_dict \<Rightarrow> pinecone_record list
     \<Rightarrow> error + pinecone_record list" where
  "transform_all p ss [] records = Inr records"
| "transform_all p ss ((standard_id, st) # rest) records =
     (case transform_standard p st ss of
        Inl e \<Rightarrow> Inl e
      | Inr r \<Rightarrow> transform_all p ss rest (records @ [r]))"

definition process_standard_set :: "standard_set \<Rightarrow> error + pinecone_record list" where
  "process_standard_set ss =
     transform_all (build_relationship_maps (standards ss)) ss (standards ss) []"

section \<open>Serialization\<close>

datatype json =
    JNull
  | JBool bool
  | JInt int
  | JStr string
  | JList "json list"
  | JObj "(string \<times> json) list"

definition opt_json :: "string option \<Rightarrow> json" where
  "opt_json v = (case v of None \<Rightarrow> JNull | Some s \<Rightarrow> JStr s)"

text \<open>
  Pydantic's \<open>model_dump\<close> of a \<open>PineconeRecord\<close>: one key per field in declaration
  order, a \<open>None\<close> value kept as null (\<open>exclude_none\<close> is false in both calls of the
  repository). The key of \<open>id\<close> is the serialization alias \<open>_id\<close> only under
  \<open>by_alias=True\<close>; the default is the field name.
\<close>

definition model_dump :: "bool \<Rightarrow> pinecone_record \<Rightarrow> (string \<times> json) list" where
  "model_dump by_alias r =
     [((if by_alias then ''_id'' else ''id''), JStr (rec_id r)),
      (''content'', JStr (content r)),
      (''standard_set_id'', JStr (standard_set_id r)),
      (''standard_set_title'', JStr (standard_set_title r)),
      (''subject'', JStr (rec_subject r)),
      (''normalized_subject'', opt_json (normalized_subject r)),
      (''education_levels'', JList (map JStr (education_levels r))),
      (''document_id'', JStr (document_id r)),
      (''document_valid'', JStr (document_valid r)),
      (''publication_status'', opt_json (publication_status r)),
      (''jurisdiction_id'', JStr (jurisdiction_id r)),
      (''jurisdiction_title'', JStr (jurisdiction_title r)),
      (''asn_identifier'', opt_json (asn_identifier r)),
      (''statement_notation'', opt_json (statement_notation r)),
      (''statement_label'', opt_json (statement_label r)),
      (''depth'', JInt (rec_depth r)),
      (''is_leaf'', JBool (is_leaf r)),
      (''is_root'', JBool (is_root r)),
      (''parent_id'', opt_json (parent_id r)),
      (''root_id'', JStr (root_id r)),
      (''ancestor_ids'', JList (map JStr (ancestor_ids r))),
      (''child_ids'', JList (map JStr (child_ids r))),
      (''sibling_count'', JInt (sibling_count r))]"

text \<open>\<open>processed_set.model_dump(mode="json")\<close> of a \<open>ProcessedStandardSet\<close>.\<close>

definition dump_processed_set :: "pinecone_record list \<Rightarrow> json" where
  "dump_processed_set records =
     JObj [(''records'', JList (map (\<lambda>r. JObj (model_dump False r)) records))]"

text \<open>
  \<open>PineconeClient._record_to_dict\<close> (tools/pinecone_client.py), the conversion for the
  upload: \<open>model_dump(exclude_none=False, by_alias=True)\<close>, then every key of
  \<open>optional_fields\<close> whose value is \<open>None\<close> is popped.
\<close>

definition optional_fields :: "string list" where
  "optional_fields =
     [''asn_identifier'', ''statement_notation'', ''statement_label'',
      ''normalized_subject'', ''publication_status'', ''parent_id'']"

definition record_to_dict :: "pinecone_record \<Rightarrow> (string \<times> json) list" where
  "record_to_dict r =
     filter (\<lambda>(k, v). \<not> (k \<in> set optional_fields \<and> v = JNull)) (model_dump True r)"

section \<open>Loading (process_and_save)\<close>

text \<open>
  A node of the raw JSON document, before \<open>StandardSetResponse(**raw_data)\<close> validates
  it: every key may be missing. \<open>Standard\<close> requires \<open>id\<close>, \<open>position\<close>, \<open>depth\<close>,
  \<open>description\<close> and \<open>ancestorIds\<close>.
\<close>

record raw_standard =
  raw_id :: "string option"
  raw_asnIdentifier :: "string option"
  raw_position :: "int option"
  raw_depth :: "int option"
  raw_statementNotation :: "string option"
  raw_description :: "string option"
  raw_ancestorIds :: "string list option"
  raw_parentId :: "string option"
  raw_statementLabel :: "string option"
  raw_educationLevels :: "string list option"

definition missing_fields :: "raw_standard \<Rightarrow> string list" where
  "missing_fields r =
     (if raw_id r = None then [''id''] else [])
     @ (if raw_position r = None then [''position''] else [])
     @ (if raw_depth r = None then [''depth''] else [])
     @ (if raw_description r = None then [''description''] else [])
     @ (if raw_ancestorIds r = None then [''ancestorIds''] else [])"

definition parse_standard :: "raw_standard \<Rightarrow> standard option" where
  "parse_standard r =
     (case (raw_id r, raw_position r, raw_depth r, raw_description r, raw_ancestorIds r) of
        (Some i, Some pos, Some d, Some desc, Some anc) \<Rightarrow>
          Some \<lparr>std_id = i, asnIdentifier = raw_asnIdentifier r, position = pos, depth = d,
                statementNotation = raw_statementNotation r, description = desc,
                ancestorIds = anc, parentId = raw_parentId r,
                statementLabel = raw_statementLabel r,
                std_educationLevels = raw_educationLevels r\<rparr>
      | _ \<Rightarrow> None)"

text \<open>
  Validation of the whole document: Pydantic collects the missing fields of every node
  and raises one \<open>ValidationError\<close> listing them, or returns the model. The fields of
  the set itself are taken as given.
\<close>

definition validation_errors :: "(string \<times> raw_standard) list \<Rightarrow> (string \<times> string) list" where
  "validation_errors raws = concat (map (\<lambda>(k, r). map (\<lambda>f. (k, f)) (missing_fields r)) raws)"

definition parse_standard_set :: "raw_standard standard_set_of \<Rightarrow> error + standard_set" where
  "parse_standard_set raw =
     (if validation_errors (standards raw) \<noteq> []
      then Inl (ValidationError (validation_errors (standards raw)))
      else Inr \<lparr>set_id = set_id raw, title = title raw, subject = subject raw,
                normalizedSubject = normalizedSubject raw,
                educationLevels = educationLevels raw, document = document raw,
                jurisdiction = jurisdiction raw,
                standards = List.map_filter
                  (\<lambda>(k, r). map_option (\<lambda>st. (k, st)) (parse_standard r)) (standards raw)\<rparr>)"

text \<open>
  \<open>process_and_save\<close> from the parsed JSON on: the result is the document written to
  \<open>processed.json\<close>. A validation failure of the load is re-raised as \<open>ValueError\<close>; an
  exception of the processor is not caught.
\<close>

definition process_and_save :: "raw_standard standard_set_of \<Rightarrow> error + json" where
  "process_and_save raw_data =
     (case parse_standard_set raw_data of
        Inl e \<Rightarrow> Inl (ValueError e)
      | Inr ss \<Rightarrow>
          (case process_standard_set ss of
             Inl e \<Rightarrow> Inl e
           | Inr records \<Rightarrow> Inr (dump_processed_set records)))"

section \<open>Reading the written document\<close>

text \<open>
  What a consumer of \<open>processed.json\<close> reads: the value under a key of an object, the
  items of an array, the records of the document.
\<close>

definition json_field :: "string \<Rightarrow> json \<Rightarrow> json option" where
  "json_field k j = (case j of JObj kvs \<Rightarrow> map_of kvs k | _ \<Rightarrow> None)"

definition json_items :: "json \<Rightarrow> json list" where
  "json_items j = (case j of JList items \<Rightarrow> items | _ \<Rightarrow> [])"

definition persisted_records :: "json \<Rightarrow> json list" where
  "persisted_records doc = (case json_field ''records'' doc of None \<Rightarrow> [] | Some l \<Rightarrow> json_items l)"

section \<open>The normalization of education levels, in the spec's words\<close>



section \<open>The children of a node, in the spec's words\<close>

text \<open>
  The nodes whose \<open>parentId\<close> is \<open>q\<close>, in the iteration order of the input map, each as
  the pair of its position and its key.
\<close>

definition spec_children :: "standards_dict \<Rightarrow> string option \<Rightarrow> (int \<times> string) list" where
  "spec_children stds q =
     map (\<lambda>(k, s). (position s, k)) (filter (\<lambda>(k, s). parentId s = q) stds)"

section \<open>Example trees\<close>

definition mk_standard :: "string \<Rightarrow> int \<Rightarrow> int \<Rightarrow> string option \<Rightarrow> string
    \<Rightarrow> string option \<Rightarrow> standard" where
  "mk_standard i pos d notation desc parent =
     \<lparr>std_id = i, asnIdentifier = None, position = pos, depth = d,
      statementNotation = notation, description = desc, ancestorIds = [],
      parentId = parent, statementLabel = None, std_educationLevels = None\<rparr>"

text \<open>Two nodes that are each other's parent.\<close>

definition cyc_A :: standard where
  "cyc_A = mk_standard ''A'' 1 0 None ''a'' (Some ''B'')"

definition cyc_B :: standard where
  "cyc_B = mk_standard ''B'' 2 1 None ''b'' (Some ''A'')"

definition cyc_tree :: standards_dict where
  "cyc_tree = [(''A'', cyc_A), (''B'', cyc_B)]"

text \<open>One node whose parent is not in the tree.\<close>

definition dangling_A :: standard where
  "dangling_A = mk_standard ''A'' 1 0 None ''a'' (Some ''X'')"

definition dangling_tree :: standards_dict where
  "dangling_tree = [(''A'', dangling_A)]"

text \<open>The three-node chain of the processor's tests: R, its child C1, and C1's child C2.\<close>

definition chain_R :: standard where
  "chain_R = mk_standard ''R'' 100000 0 None ''Math'' None"

definition chain_C1 :: standard where
  "chain_C1 = mk_standard ''C1'' 101000 1 (Some ''1.1'') ''Numbers'' (Some ''R'')"

definition chain_C2 :: standard where
  "chain_C2 = mk_standard ''C2'' 102000 2 (Some ''1.1.A'') ''Count to 10'' (Some ''C1'')"

definition chain_tree :: standards_dict where
  "chain_tree = [(''R'', chain_R), (''C1'', chain_C1), (''C2'', chain_C2)]"

text \<open>The shared metadata of the processor's tests, around a given tree.\<close>

definition example_set :: "(string \<times> 'n) list \<Rightarrow> 'n standard_set_of" where
  "example_set stds =
     \<lparr>set_id = ''SET_ID'', title = ''Grade 1'', subject = ''Mathematics'',
      normalizedSubject = Some ''Math'', educationLevels = [''01''],
      document = \<lparr>doc_id = Some ''DOC_ID'', doc_title = ''Test Document'',
                  valid = Some ''2021'', sourceURL = None, doc_asnIdentifier = None,
                  publicationStatus = Some ''Published''\<rparr>,
      jurisdiction = \<lparr>jur_id = ''JUR_ID'', jur_title = ''Test State''\<rparr>,
      standards = stds\<rparr>"

text \<open>A parent whose children come at positions 300, 100, 200.\<close>

definition sib_P :: standard where
  "sib_P = mk_standard ''P'' 1 0 None ''parent'' None"

definition sibling_tree :: standards_dict where
  "sibling_tree =
     [(''P'', sib_P),
      (''c300'', mk_standard ''c300'' 300 1 None ''third'' (Some ''P'')),
      (''c100'', mk_standard ''c100'' 100 1 None ''first'' (Some ''P'')),
      (''c200'', mk_standard ''c200'' 200 1 None ''second'' (Some ''P''))]"

text \<open>A node that is its own parent, next to a root.\<close>

definition self_S :: standard where
  "self_S = mk_standard ''S'' 1 0 None ''s'' (Some ''S'')"

definition self_tree :: standards_dict where
  "self_tree = [(''S'', self_S), (''T'', mk_standard ''T'' 2 0 None ''t'' None)]"

text \<open>
  Raw documents: the chain with every field of its nodes given, and the chain whose
  middle node lacks its description.
\<close>

definition mk_raw :: "standard \<Rightarrow> raw_standard" where
  "mk_raw s =
     \<lparr>raw_id = Some (std_id s), raw_asnIdentifier = asnIdentifier s,
      raw_position = Some (position s), raw_depth = Some (depth s),
      raw_statementNotation = statementNotation s, raw_description = Some (description s),
      raw_ancestorIds = Some (ancestorIds s), raw_parentId = parentId s,
      raw_statementLabel = statementLabel s, raw_educationLevels = std_educationLevels s\<rparr>"

definition chain_raw :: "raw_standard standard_set_of" where
  "chain_raw = example_set (map (\<lambda>(k, s). (k, mk_raw s)) chain_tree)"

definition malformed_raw :: "raw_standard standard_set_of" where
  "malformed_raw =
     example_set
       [(''R'', mk_raw chain_R),
        (''C1'', (mk_raw chain_C1)\<lparr>raw_description := None\<rparr>),
        (''C2'', mk_raw chain_C2)]"


section \<open>Termination and step bounds\<close>

lemma find_root_loop_steps:
  "snd (find_root_loop m cur V n) \<le> n + card (fst ` set m - V)"
proof (induction m cur V n rule: find_root_loop.induct)
  case (1 m cur V n)
  show ?case
  proof (cases "parentId cur")
    case None
    then show ?thesis by (subst find_root_loop.simps) simp
  next
    case (Some c)
    show ?thesis
    proof (cases "c \<in> V")
      case True
      with Some show ?thesis by (subst find_root_loop.simps) simp
    next
      case False
      show ?thesis
      proof (cases "map_of m c")
        case None
        with Some False show ?thesis by (subst find_root_loop.simps) simp
      next
        case (Some p)
        have "c \<in> fst ` set m"
          using Some by (metis map_of_eq_None_iff option.distinct(1))
        with False have "fst ` set m - insert c V \<subset> fst ` set m - V"
          by blast
        then have less: "card (fst ` set m - insert c V) < card (fst ` set m - V)"
          by (intro psubset_card_mono) simp_all
        have "snd (find_root_loop m p (insert c V) (Suc n))
            \<le> Suc n + card (fst ` set m - insert c V)"
          using "1.IH" [OF \<open>parentId cur = Some c\<close> False Some] .
        with less Some False \<open>parentId cur = Some c\<close> show ?thesis
          by (subst find_root_loop.simps) simp
      qed
    qed
  qed
qed

lemma ancestors_loop_steps:
  "snd (ancestors_loop m cid V acc n) \<le> n + card (fst ` set m - V)"
proof (induction m cid V acc n rule: ancestors_loop.induct)
  case (1 m cid V acc n)
  show ?case
  proof (cases cid)
    case None
    then show ?thesis by (subst ancestors_loop.simps) simp
  next
    case (Some c)
    show ?thesis
    proof (cases "c \<in> V")
      case True
      with Some show ?thesis by (subst ancestors_loop.simps) simp
    next
      case False
      show ?thesis
      proof (cases "map_of m c")
        case None
        with \<open>cid = Some c\<close> False show ?thesis by (subst ancestors_loop.simps) simp
      next
        case (Some p)
        have "c \<in> fst ` set m"
          using Some by (metis map_of_eq_None_iff option.distinct(1))
        with False have "fst ` set m - insert c V \<subset> fst ` set m - V"
          by blast
        then have less: "card (fst ` set m - insert c V) < card (fst ` set m - V)"
          by (intro psubset_card_mono) simp_all
        have "snd (ancestors_loop m (parentId p) (insert c V) (acc @ [c]) (Suc n))
            \<le> Suc n + card (fst ` set m - insert c V)"
          using "1.IH" [OF \<open>cid = Some c\<close> False Some] .
        with less Some False \<open>cid = Some c\<close> show ?thesis
          by (subst ancestors_loop.simps) simp
      qed
    qed
  qed
qed

lemma card_keys_le: "card (fst ` set (m :: standards_dict)) \<le> length m"
  by (metis card_length length_map set_map)

text \<open>
  Rewriting the \<open>depth\<close> of the nodes (or any field other than \<open>id\<close> and \<open>parentId\<close>)
  changes neither walk.
\<close>

lemma map_of_map_keyed:
  "map_of (map (\<lambda>(k, s). (k, g k s)) m) k = map_option (g k) (map_of m k)"
  by (induction m) auto

lemma ancestors_loop_relabel:
  assumes par: "\<And>k s. parentId (g k s) = parentId s"
  shows "ancestors_loop (map (\<lambda>(k, s). (k, g k s)) m) cid V acc n
       = ancestors_loop m cid V acc n"
proof (induction m cid V acc n rule: ancestors_loop.induct)
  case (1 m cid V acc n)
  let ?m' = "map (\<lambda>(k, s). (k, g k s)) m"
  show ?case
  proof (cases cid)
    case None
    then show ?thesis
      by (simp add: ancestors_loop.simps [of ?m' None] ancestors_loop.simps [of m None])
  next
    case (Some c)
    show ?thesis
    proof (cases "c \<in> V")
      case True
      with Some show ?thesis
        by (simp add: ancestors_loop.simps [of ?m' "Some c" V]
            ancestors_loop.simps [of m "Some c" V])
    next
      case False
      show ?thesis
      proof (cases "map_of m c")
        case None
        with \<open>cid = Some c\<close> False show ?thesis
          by (simp add: ancestors_loop.simps [of ?m' "Some c" V]
              ancestors_loop.simps [of m "Some c" V] map_of_map_keyed)
      next
        case (Some p)
        from "1.IH" [OF \<open>cid = Some c\<close> False Some]
        show ?thesis using Some False \<open>cid = Some c\<close>
          by (simp add: ancestors_loop.simps [of ?m' "Some c" V]
              ancestors_loop.simps [of m "Some c" V] map_of_map_keyed par)
      qed
    qed
  qed
qed

lemma find_root_loop_relabel:
  assumes par: "\<And>k s. parentId (g k s) = parentId s"
    and ident: "\<And>k s. std_id (g k s) = std_id s"
  shows "parentId cur' = parentId cur \<Longrightarrow> std_id cur' = std_id cur
    \<Longrightarrow> std_id (fst (find_root_loop (map (\<lambda>(k, s). (k, g k s)) m) cur' V n))
          = std_id (fst (find_root_loop m cur V n))
        \<and> snd (find_root_loop (map (\<lambda>(k, s). (k, g k s)) m) cur' V n)
          = snd (find_root_loop m cur V n)"
proof (induction m cur V n arbitrary: cur' rule: find_root_loop.induct)
  case (1 m cur V n)
  let ?m' = "map (\<lambda>(k, s). (k, g k s)) m"
  show ?case
  proof (cases "parentId cur")
    case None
    with "1.prems" show ?thesis
      by (simp add: find_root_loop.simps [of ?m' cur'] find_root_loop.simps [of m cur])
  next
    case (Some c)
    show ?thesis
    proof (cases "c \<in> V")
      case True
      with Some "1.prems" show ?thesis
        by (simp add: find_root_loop.simps [of ?m' cur'] find_root_loop.simps [of m cur])
    next
      case False
      show ?thesis
      proof (cases "map_of m c")
        case None
        with \<open>parentId cur = Some c\<close> False "1.prems" show ?thesis
          by (simp add: find_root_loop.simps [of ?m' cur'] find_root_loop.simps [of m cur]
              map_of_map_keyed)
      next
        case (Some p)
        from "1.IH" [OF \<open>parentId cur = Some c\<close> False Some, of "g c p"]
        have "std_id (fst (find_root_loop ?m' (g c p) (insert c V) (Suc n)))
              = std_id (fst (find_root_loop m p (insert c V) (Suc n)))
            \<and> snd (find_root_loop ?m' (g c p) (insert c V) (Suc n))
              = snd (find_root_loop m p (insert c V) (Suc n))"
          by (simp add: par ident)
        with Some False \<open>parentId cur = Some c\<close> "1.prems" show ?thesis
          by (simp add: find_root_loop.simps [of ?m' cur'] find_root_loop.simps [of m cur]
              map_of_map_keyed)
      qed
    qed
  qed
qed

text \<open>
  C3. The root-finding walk and the ancestor-chain walk are total functions (their
  termination is proved above from the visited set: every parent-following step puts a
  new key of the id-to-node map into \<open>visited\<close>), and on every tree, cyclic and dangling
  trees included, each makes at most as many parent-following steps as the tree has
  nodes. The \<open>depth\<close> fields play no part: with any other depths in the node and in the
  tree, both walks return the same result.
\<close>

theorem walks_bounded_by_tree_size:
  "snd (find_root_loop m st {} 0) \<le> length m
   \<and> snd (ancestors_loop m (parentId st) {} [] 0) \<le> length m
   \<and> find_root_id (st\<lparr>depth := d\<rparr>) (map (\<lambda>(k, s). (k, s\<lparr>depth := f k s\<rparr>)) m)
       = find_root_id st m
   \<and> build_ordered_ancestors (st\<lparr>depth := d\<rparr>) (map (\<lambda>(k, s). (k, s\<lparr>depth := f k s\<rparr>)) m)
       = build_ordered_ancestors st m"
proof (intro conjI)
  have "snd (find_root_loop m st {} 0) \<le> 0 + card (fst ` set m - {})"
    by (rule find_root_loop_steps)
  then show "snd (find_root_loop m st {} 0) \<le> length m"
    using card_keys_le [of m] by simp
next
  have "snd (ancestors_loop m (parentId st) {} [] 0) \<le> 0 + card (fst ` set m - {})"
    by (rule ancestors_loop_steps)
  then show "snd (ancestors_loop m (parentId st) {} [] 0) \<le> length m"
    using card_keys_le [of m] by simp
next
  show "find_root_id (st\<lparr>depth := d\<rparr>) (map (\<lambda>(k, s). (k, s\<lparr>depth := f k s\<rparr>)) m)
       = find_root_id st m"
    using find_root_loop_relabel [of "\<lambda>k s. s\<lparr>depth := f k s\<rparr>" "st\<lparr>depth := d\<rparr>" st m "{}" 0]
    by (simp add: find_root_id_def)
next
  show "build_ordered_ancestors (st\<lparr>depth := d\<rparr>) (map (\<lambda>(k, s). (k, s\<lparr>depth := f k s\<rparr>)) m)
       = build_ordered_ancestors st m"
    using ancestors_loop_relabel [of "\<lambda>k s. s\<lparr>depth := f k s\<rparr>" m "parentId st" "{}" "[]" 0]
    by (simp add: build_ordered_ancestors_def)
qed


section \<open>Ancestor chains and roots\<close>

lemma ancestors_loop_prefix:
  "\<exists>ys. fst (ancestors_loop m cid V acc n) = acc @ ys"
proof (induction m cid V acc n rule: ancestors_loop.induct)
  case (1 m cid V acc n)
  show ?case
  proof (cases cid)
    case None
    then show ?thesis by (subst ancestors_loop.simps) simp
  next
    case (Some c)
    show ?thesis
    proof (cases "c \<in> V")
      case True
      with Some show ?thesis by (subst ancestors_loop.simps) simp
    next
      case False
      show ?thesis
      proof (cases "map_of m c")
        case None
        with \<open>cid = Some c\<close> False show ?thesis by (subst ancestors_loop.simps) simp
      next
        case (Some p)
        from "1.IH" [OF \<open>cid = Some c\<close> False Some]
        obtain ys where "fst (ancestors_loop m (parentId p) (insert c V) (acc @ [c]) (Suc n))
            = (acc @ [c]) @ ys" by blast
        with Some False \<open>cid = Some c\<close> show ?thesis
          by (subst ancestors_loop.simps) simp
      qed
    qed
  qed
qed

lemma ancestors_loop_step:
  assumes "c \<notin> V" and "map_of m c = Some p"
  shows "\<exists>ys. fst (ancestors_loop m (Some c) V acc n) = acc @ c # ys"
proof -
  obtain ys where "fst (ancestors_loop m (parentId p) (insert c V) (acc @ [c]) (Suc n))
      = (acc @ [c]) @ ys"
    using ancestors_loop_prefix by blast
  with assms show ?thesis by (subst ancestors_loop.simps) simp
qed

lemma ancestors_loop_stop:
  assumes "cid = None \<or> (\<exists>c. cid = Some c \<and> (c \<in> V \<or> map_of m c = None))"
  shows "fst (ancestors_loop m cid V acc n) = acc"
  using assms by (subst ancestors_loop.simps) (auto split: option.splits)

lemma find_root_ancestors:
  "(fst (ancestors_loop m (parentId cur) V acc k) = acc
      \<longrightarrow> fst (find_root_loop m cur V n) = cur)
   \<and> (fst (ancestors_loop m (parentId cur) V acc k) \<noteq> acc
      \<longrightarrow> map_of m (last (fst (ancestors_loop m (parentId cur) V acc k)))
           = Some (fst (find_root_loop m cur V n)))"
proof (induction m cur V n arbitrary: acc k rule: find_root_loop.induct)
  case (1 m cur V n)
  show ?case
  proof (cases "parentId cur")
    case None
    then show ?thesis
      by (simp add: find_root_loop.simps [of m cur] ancestors_loop.simps [of m None])
  next
    case (Some c)
    show ?thesis
    proof (cases "c \<in> V")
      case True
      with Some show ?thesis
        by (simp add: find_root_loop.simps [of m cur] ancestors_loop.simps [of m "Some c" V])
    next
      case False
      show ?thesis
      proof (cases "map_of m c")
        case None
        with \<open>parentId cur = Some c\<close> False show ?thesis
          by (simp add: find_root_loop.simps [of m cur] ancestors_loop.simps [of m "Some c" V])
      next
        case (Some p)
        let ?A = "fst (ancestors_loop m (parentId p) (insert c V) (acc @ [c]) (Suc k))"
        have unfoldA: "fst (ancestors_loop m (parentId cur) V acc k) = ?A"
          using Some False \<open>parentId cur = Some c\<close>
          by (simp add: ancestors_loop.simps [of m "Some c" V])
        have unfoldR: "fst (find_root_loop m cur V n)
            = fst (find_root_loop m p (insert c V) (Suc n))"
          using Some False \<open>parentId cur = Some c\<close>
          by (simp add: find_root_loop.simps [of m cur])
        obtain ys where ys: "?A = (acc @ [c]) @ ys"
          using ancestors_loop_prefix by blast
        then have neq: "?A \<noteq> acc" by simp
        note IH = "1.IH" [OF \<open>parentId cur = Some c\<close> False Some, of "acc @ [c]" "Suc k"]
        have "map_of m (last ?A) = Some (fst (find_root_loop m p (insert c V) (Suc n)))"
        proof (cases "?A = acc @ [c]")
          case True
          with IH have "fst (find_root_loop m p (insert c V) (Suc n)) = p" by simp
          with True Some show ?thesis by simp
        next
          case False
          with IH show ?thesis by simp
        qed
        with neq unfoldA unfoldR show ?thesis by simp
      qed
    qed
  qed
qed

text \<open>
  C4, as the code has it. In a tree keyed by node id, the recomputed ancestor list of a
  node is empty if and only if its \<open>parentId\<close> is null or names no node of the tree; and
  for a node whose \<open>parentId\<close> names a node of the tree, the last ancestor is that
  \<open>parentId\<close> and the first ancestor is the root id that \<open>find_root_id\<close> returns.
\<close>

theorem ancestors_ends:
  assumes keyed: "\<forall>(k, s) \<in> set m. std_id s = k"
  shows "(build_ordered_ancestors st m = []
            \<longleftrightarrow> parentId st = None \<or> (\<exists>p. parentId st = Some p \<and> map_of m p = None))
         \<and> (\<forall>p. parentId st = Some p \<and> map_of m p \<noteq> None
              \<longrightarrow> last (build_ordered_ancestors st m) = p
                  \<and> hd (build_ordered_ancestors st m) = find_root_id st m)"
proof (intro conjI allI impI)
  let ?A = "fst (ancestors_loop m (parentId st) {} [] 0)"
  show "build_ordered_ancestors st m = []
      \<longleftrightarrow> parentId st = None \<or> (\<exists>p. parentId st = Some p \<and> map_of m p = None)"
  proof (cases "parentId st")
    case None
    then show ?thesis
      by (simp add: build_ordered_ancestors_def ancestors_loop.simps [of m None])
  next
    case (Some c)
    show ?thesis
    proof (cases "map_of m c")
      case None
      with Some show ?thesis
        by (simp add: build_ordered_ancestors_def ancestors_loop.simps [of m "Some c" "{}"])
    next
      case (Some p)
      obtain ys where "fst (ancestors_loop m (Some c) {} [] 0) = [] @ c # ys"
        using ancestors_loop_step [of c "{}" m p "[]" 0] Some by blast
      with Some \<open>parentId st = Some c\<close> show ?thesis
        by (simp add: build_ordered_ancestors_def)
    qed
  qed
next
  fix p
  assume a: "parentId st = Some p \<and> map_of m p \<noteq> None"
  then obtain q where q: "map_of m p = Some q" by blast
  let ?A = "fst (ancestors_loop m (parentId st) {} [] 0)"
  obtain ys where ys: "?A = [] @ p # ys"
    using ancestors_loop_step [of p "{}" m q "[]" 0] q a by auto
  then show "last (build_ordered_ancestors st m) = p"
    by (simp add: build_ordered_ancestors_def last_rev)
  from ys have ne: "?A \<noteq> []" by simp
  with find_root_ancestors [of m st "{}" "[]" 0 0]
  have look: "map_of m (last ?A) = Some (fst (find_root_loop m st {} 0))" by simp
  then have "(last ?A, fst (find_root_loop m st {} 0)) \<in> set m"
    by (rule map_of_SomeD)
  with keyed have "std_id (fst (find_root_loop m st {} 0)) = last ?A" by blast
  with ne show "hd (build_ordered_ancestors st m) = find_root_id st m"
    by (simp add: build_ordered_ancestors_def find_root_id_def hd_rev)
qed


theorem ancestors_ends_witness:
  "map (\<lambda>(k, s). std_id s) chain_tree = map fst chain_tree
   \<and> parentId chain_C2 = Some ''C1'' \<and> map_of chain_tree ''C1'' \<noteq> None
   \<and> last (build_ordered_ancestors chain_C2 chain_tree) = ''C1''
   \<and> hd (build_ordered_ancestors chain_C2 chain_tree) = find_root_id chain_C2 chain_tree"
proof -
  have h: "\<forall>(k, s) \<in> set chain_tree. std_id s = k"
    by (simp add: chain_tree_def chain_R_def chain_C1_def chain_C2_def mk_standard_def)
  have p: "parentId chain_C2 = Some ''C1'' \<and> map_of chain_tree ''C1'' \<noteq> None"
    by (simp add: chain_tree_def chain_C2_def mk_standard_def)
  from ancestors_ends [OF h, of chain_C2] p
  have "last (build_ordered_ancestors chain_C2 chain_tree) = ''C1''
      \<and> hd (build_ordered_ancestors chain_C2 chain_tree) = find_root_id chain_C2 chain_tree"
    by blast
  moreover have "map (\<lambda>(k, s). std_id s) chain_tree = map fst chain_tree"
    by (simp add: chain_tree_def chain_R_def chain_C1_def chain_C2_def mk_standard_def)
  ultimately show ?thesis using p by blast
qed

text \<open>
  The claim as written fails on a dangling parent: the node is not a root, and its
  ancestor list is empty.
\<close>

theorem ancestors_dangling_counterexample:
  "\<not> (build_ordered_ancestors dangling_A dangling_tree = [] \<longleftrightarrow> parentId dangling_A = None)"
  by code_simp

text \<open>
  C10. In the tree of two nodes A and B that are each other's parent, the ancestor list
  computed for A is [A, B]: it contains A's own id.
\<close>

theorem cyclic_ancestors_contain_self:
  "build_ordered_ancestors cyc_A cyc_tree = [''A'', ''B'']
   \<and> std_id cyc_A \<in> set (build_ordered_ancestors cyc_A cyc_tree)"
  by code_simp

section \<open>Education levels\<close>

text \<open>The library functions behave as their names say.\<close>

lemma strip_no_outer_space: "strip s \<noteq> [] \<Longrightarrow> \<not> is_space (hd (strip s)) \<and> \<not> is_space (last (strip s))"
proof -
  assume ne: "strip s \<noteq> []"
  let ?t = "dropWhile is_space (rev (dropWhile is_space s))"
  from ne have t: "?t \<noteq> []" by (simp add: strip_def)
  then have h: "\<not> is_space (hd ?t)" by (rule hd_dropWhile)
  have l: "last (strip s) = hd ?t" using t by (simp add: strip_def last_rev)
  have "hd (strip s) = last ?t" using t by (simp add: strip_def hd_rev)
  obtain pre where pre: "rev (dropWhile is_space s) = pre @ ?t"
    by (metis takeWhile_dropWhile_id)
  then have "dropWhile is_space s = rev ?t @ rev pre"
    by (metis rev_append rev_rev_ident)
  then have "hd (dropWhile is_space s) = hd (rev ?t)"
    using t by (metis hd_append2 rev_is_Nil_conv)
  moreover have "dropWhile is_space s \<noteq> []"
  proof
    assume "dropWhile is_space s = []"
    then have "?t = []" by (simp only: rev.simps dropWhile.simps)
    with t show False by blast
  qed
  then have "\<not> is_space (hd (dropWhile is_space s))" by (rule hd_dropWhile)
  ultimately have "\<not> is_space (hd (strip s))" by (simp add: strip_def)
  with h l show ?thesis by simp
qed

lemma split_on_nonempty: "split_on c s \<noteq> []"
  by (induction s) (auto split: list.splits)

lemma split_on_no_sep: "w \<in> set (split_on c s) \<Longrightarrow> c \<notin> set w"
  by (induction s arbitrary: w) (auto split: list.splits if_splits)

lemma split_on_join: "join [c] (split_on c s) = s"
proof (induction s)
  case Nil
  then show ?case by simp
next
  case (Cons x xs)
  then show ?case
    by (cases "split_on c xs"; cases "tl (split_on c xs)") (auto simp: split_on_nonempty)
qed







section \<open>Content text\<close>

lemma ancestors_loop_in_map:
  "set (fst (ancestors_loop m cid V acc n)) \<subseteq> set acc \<union> dom (map_of m)"
proof (induction m cid V acc n rule: ancestors_loop.induct)
  case (1 m cid V acc n)
  show ?case
  proof (cases cid)
    case None
    then show ?thesis by (subst ancestors_loop.simps) simp
  next
    case (Some c)
    show ?thesis
    proof (cases "c \<in> V")
      case True
      with Some show ?thesis by (subst ancestors_loop.simps) simp
    next
      case False
      show ?thesis
      proof (cases "map_of m c")
        case None
        with \<open>cid = Some c\<close> False show ?thesis by (subst ancestors_loop.simps) simp
      next
        case (Some p)
        from "1.IH" [OF \<open>cid = Some c\<close> False Some] Some
        have "set (fst (ancestors_loop m (parentId p) (insert c V) (acc @ [c]) (Suc n)))
            \<subseteq> set acc \<union> dom (map_of m)"
          by auto
        with Some False \<open>cid = Some c\<close> show ?thesis
          by (subst ancestors_loop.simps) simp
      qed
    qed
  qed
qed

lemma ancestors_resolve:
  "\<exists>nodes. map (map_of m) (build_ordered_ancestors st m) = map Some nodes"
proof -
  have sub: "set (build_ordered_ancestors st m) \<subseteq> dom (map_of m)"
    using ancestors_loop_in_map [of m "parentId st" "{}" "[]" 0]
    by (simp add: build_ordered_ancestors_def)
  have "\<And>xs. set xs \<subseteq> dom (map_of m) \<Longrightarrow> \<exists>nodes. map (map_of m) xs = map Some nodes"
  proof -
    fix xs :: "string list"
    show "set xs \<subseteq> dom (map_of m) \<Longrightarrow> \<exists>nodes. map (map_of m) xs = map Some nodes"
    proof (induction xs)
      case Nil
      then show ?case by simp
    next
      case (Cons a xs)
      then obtain nodes where n: "map (map_of m) xs = map Some nodes" by auto
      from Cons.prems obtain nd where "map_of m a = Some nd" by auto
      with n have "map (map_of m) (a # xs) = map Some (nd # nodes)" by simp
      then show ?case by blast
    qed
  qed
  with sub show ?thesis by blast
qed

lemma ancestor_lines_eq:
  "map (map_of m) as = map Some nodes
   \<Longrightarrow> ancestor_lines m as lines = Inr (lines @ map format_line nodes)"
proof (induction as arbitrary: lines nodes)
  case Nil
  then show ?case by simp
next
  case (Cons a as)
  then obtain nd rest where nodes: "nodes = nd # rest" by (cases nodes) auto
  with Cons.prems have "map_of m a = Some nd" and "map (map_of m) as = map Some rest"
    by auto
  with Cons.IH [of rest "lines @ [format_line nd]"] nodes show ?case by simp
qed

text \<open>
  C6. Every ancestor id of the ordered chain resolves to a node of the map, and the
  content text is the join, with single newlines, of one line per ancestor (outermost
  first) followed by the line of the node itself. A line is "Depth d: description", or
  "Depth d (notation): description" when the notation is present and not empty. For the
  depth-2 node of the three-node chain the text is the three lines "Depth 0: Math",
  "Depth 1 (1.1): Numbers" and "Depth 2 (1.1.A): Count to 10", with a newline between.
\<close>

theorem content_text_lines:
  "(\<exists>nodes. map (map_of (id_to_standard p)) (build_ordered_ancestors st (id_to_standard p))
               = map Some nodes
         \<and> build_content_text p st = Inr (join newline (map format_line (nodes @ [st]))))
   \<and> format_line st
       = ''Depth '' @ str_int (depth st)
         @ (if truthy (statementNotation st)
            then '' ('' @ the (statementNotation st) @ '')'' else [])
         @ '': '' @ description st
   \<and> build_content_text (build_relationship_maps chain_tree) chain_C2
       = Inr (''Depth 0: Math'' @ [CHR 0x0A] @ ''Depth 1 (1.1): Numbers'' @ [CHR 0x0A]
              @ ''Depth 2 (1.1.A): Count to 10'')"
proof (intro conjI)
  obtain nodes where n: "map (map_of (id_to_standard p))
      (build_ordered_ancestors st (id_to_standard p)) = map Some nodes"
    using ancestors_resolve by blast
  then have "build_content_text p st = Inr (join newline (map format_line (nodes @ [st])))"
    by (simp add: build_content_text_def ancestor_lines_eq)
  with n show "\<exists>nodes. map (map_of (id_to_standard p))
        (build_ordered_ancestors st (id_to_standard p)) = map Some nodes
      \<and> build_content_text p st = Inr (join newline (map format_line (nodes @ [st])))"
    by blast
  show "format_line st
       = ''Depth '' @ str_int (depth st)
         @ (if truthy (statementNotation st)
            then '' ('' @ the (statementNotation st) @ '')'' else [])
         @ '': '' @ description st"
    by (simp add: format_line_def truthy_def split: option.splits)
  show "build_content_text (build_relationship_maps chain_tree) chain_C2
       = Inr (''Depth 0: Math'' @ [CHR 0x0A] @ ''Depth 1 (1.1): Numbers'' @ [CHR 0x0A]
              @ ''Depth 2 (1.1.A): Count to 10'')"
    by code_simp
qed


section \<open>The transformer's record\<close>

lemma build_content_text_Inr: "\<exists>t. build_content_text p st = Inr t"
proof -
  obtain nodes where "map (map_of (id_to_standard p))
      (build_ordered_ancestors st (id_to_standard p)) = map Some nodes"
    using ancestors_resolve by blast
  then show ?thesis
    by (simp add: build_content_text_def ancestor_lines_eq)
qed

lemma transform_standard_fields:
  assumes "transform_standard p st ss = Inr r"
  shows "child_ids r = (case map_of (parent_to_children p) (Some (std_id st)) of
                          None \<Rightarrow> [] | Some c \<Rightarrow> c)"
    and "is_leaf r = (std_id st \<in> leaf_nodes p)"
    and "rec_id r = std_id st"
    and "parent_id r = parentId st"
    and "asn_identifier r = (if truthy (asnIdentifier st) then asnIdentifier st else None)"
    and "statement_notation r
           = (if truthy (statementNotation st) then statementNotation st else None)"
    and "statement_label r
           = (if truthy (statementLabel st) then statementLabel st else None)"
    and "normalized_subject r = normalizedSubject ss"
    and "publication_status r = publicationStatus (document ss)"
  using assms
  by (auto simp: transform_standard_def Let_def split: sum.splits option.splits)

lemma transform_standard_ok:
  assumes "doc_id (document ss) = Some d" and "valid (document ss) = Some v"
  shows "\<exists>r. transform_standard p st ss = Inr r"
proof -
  obtain t where "build_content_text p st = Inr t"
    using build_content_text_Inr by blast
  with assms show ?thesis
    by (simp add: transform_standard_def Let_def)
qed

lemma leaf_nodes_iff:
  "x \<in> identify_leaf_nodes stds
     \<longleftrightarrow> x \<in> fst ` set stds \<and> (\<forall>(k, s) \<in> set stds. parentId s \<noteq> Some x)"
  by (force simp: identify_leaf_nodes_def List.map_filter_def)

lemma spec_children_empty:
  "spec_children stds q = [] \<longleftrightarrow> (\<forall>(k, s) \<in> set stds. parentId s \<noteq> q)"
  by (auto simp: spec_children_def filter_empty_conv)

lemma set_spec_children:
  "set (map snd (spec_children stds q)) = {k. \<exists>s. (k, s) \<in> set stds \<and> parentId s = q}"
  by (force simp: spec_children_def)

section \<open>Children and leaves\<close>

lemma map_of_dict_append:
  "map_of (dict_append pm k v) q
     = (if q = k then Some ((case map_of pm k of None \<Rightarrow> [] | Some ys \<Rightarrow> ys) @ [v])
        else map_of pm q)"
  by (induction pm k v rule: dict_append.induct) auto

lemma map_of_fold_group:
  "map_of (fold (\<lambda>(sid, st) parent_map.
             dict_append parent_map (parentId st) (position st, sid)) stds pm) q
     = (case map_of pm q of
          None \<Rightarrow> if spec_children stds q = [] then None else Some (spec_children stds q)
        | Some ys \<Rightarrow> Some (ys @ spec_children stds q))"
proof (induction stds arbitrary: pm)
  case Nil
  then show ?case by (simp add: spec_children_def split: option.splits)
next
  case (Cons x stds)
  obtain k s where x: "x = (k, s)" by (cases x)
  show ?case
    unfolding x
    by (simp add: Cons.IH map_of_dict_append spec_children_def split: option.splits)
qed

lemma map_of_group_by_parent:
  "map_of (group_by_parent stds) q
     = (if spec_children stds q = [] then None else Some (spec_children stds q))"
  by (simp add: group_by_parent_def map_of_fold_group)

lemma map_of_parent_to_children:
  "map_of (build_parent_to_children_map stds) q
     = (if spec_children stds q = [] then None
        else Some (map snd (sort_key fst (spec_children stds q))))"
proof -
  have "build_parent_to_children_map stds
      = map (\<lambda>(k, v). (k, map snd (sort_key fst v))) (group_by_parent stds)"
    by (simp add: build_parent_to_children_map_def)
  then show ?thesis
    by (simp add: map_of_map map_of_group_by_parent)
qed


text \<open>
  C5, as the code has it. For a node n of a tree with unique keys, keyed by its id:
  \<open>child_ids\<close> is the list of the keys of the nodes whose \<open>parentId\<close> is n's id, sorted
  by ascending position, nodes of equal position staying in the iteration order of the
  input map; n itself is in the list exactly when n is its own parent; and the roots are
  grouped, in the same order, under the null key.
\<close>

theorem child_ids_sorted_children:
  assumes tr: "transform_standard (build_relationship_maps stds) st ss = Inr r"
    and keys: "distinct (map fst stds)"
    and node: "(std_id st, st) \<in> set stds"
  shows "child_ids r = map snd (sort_key fst (spec_children stds (Some (std_id st))))
    \<and> sorted (map fst (sort_key fst (spec_children stds (Some (std_id st)))))
    \<and> (\<forall>pos. filter (\<lambda>c. fst c = pos) (sort_key fst (spec_children stds (Some (std_id st))))
              = filter (\<lambda>c. fst c = pos) (spec_children stds (Some (std_id st))))
    \<and> (std_id st \<in> set (child_ids r) \<longleftrightarrow> parentId st = Some (std_id st))
    \<and> (case map_of (parent_to_children (build_relationship_maps stds)) None of
          None \<Rightarrow> [] | Some c \<Rightarrow> c)
        = map snd (sort_key fst (spec_children stds None))"
proof (intro conjI allI)
  let ?q = "Some (std_id st)"
  have get: "\<And>q. (case map_of (parent_to_children (build_relationship_maps stds)) q of
          None \<Rightarrow> [] | Some c \<Rightarrow> c) = map snd (sort_key fst (spec_children stds q))"
    by (simp add: build_relationship_maps_def map_of_parent_to_children)
  show c: "child_ids r = map snd (sort_key fst (spec_children stds ?q))"
    using transform_standard_fields(1) [OF tr] get [of ?q] by simp
  show "sorted (map fst (sort_key fst (spec_children stds ?q)))"
    by (rule sorted_sort_key)
  show "\<And>pos. filter (\<lambda>c. fst c = pos) (sort_key fst (spec_children stds ?q))
      = filter (\<lambda>c. fst c = pos) (spec_children stds ?q)"
    by (rule sort_key_stable)
  have "set (child_ids r) = {k. \<exists>s. (k, s) \<in> set stds \<and> parentId s = ?q}"
    using set_spec_children [of stds ?q] by (simp add: c)
  moreover have "\<And>s. (std_id st, s) \<in> set stds \<Longrightarrow> s = st"
    using keys node by (meson eq_key_imp_eq_value)
  ultimately show "std_id st \<in> set (child_ids r) \<longleftrightarrow> parentId st = Some (std_id st)"
    using node by auto
  show "(case map_of (parent_to_children (build_relationship_maps stds)) None of
          None \<Rightarrow> [] | Some c \<Rightarrow> c)
        = map snd (sort_key fst (spec_children stds None))"
    by (rule get)
qed


theorem child_ids_sorted_children_witness:
  "map_sum id child_ids
     (transform_standard (build_relationship_maps sibling_tree) sib_P (example_set sibling_tree))
     = Inr [''c100'', ''c200'', ''c300'']
   \<and> distinct (map fst sibling_tree)
   \<and> (std_id sib_P, sib_P) \<in> set sibling_tree"
proof -
  obtain r where r: "transform_standard (build_relationship_maps sibling_tree) sib_P
      (example_set sibling_tree) = Inr r"
    using transform_standard_ok [of "example_set sibling_tree" "''DOC_ID''" "''2021''"]
    by (auto simp: example_set_def)
  have d: "distinct (map fst sibling_tree)"
    by (simp add: sibling_tree_def)
  have n: "(std_id sib_P, sib_P) \<in> set sibling_tree"
    by (simp add: sibling_tree_def sib_P_def mk_standard_def)
  have "map snd (sort_key fst (spec_children sibling_tree (Some (std_id sib_P))))
      = [''c100'', ''c200'', ''c300'']"
    by code_simp
  with child_ids_sorted_children [OF r d n]
  have "child_ids r = [''c100'', ''c200'', ''c300'']" by simp
  with r d n show ?thesis by simp
qed


text \<open>
  The claim as written fails on a node that is its own parent: its \<open>child_ids\<close> contain
  its own id.
\<close>

theorem child_ids_self_counterexample:
  "map_sum id child_ids
     (transform_standard (build_relationship_maps self_tree) self_S (example_set self_tree))
     = Inr [''S'']"
  by code_simp


text \<open>
  C7, as the code has it. For a node n of the tree, keyed by its id, \<open>is_leaf\<close> is true
  if and only if n's id is the \<open>parentId\<close> of no node of the tree, n itself included;
  and a leaf has no children.
\<close>

theorem leaf_iff_unreferenced:
  assumes tr: "transform_standard (build_relationship_maps stds) st ss = Inr r"
    and node: "(std_id st, st) \<in> set stds"
  shows "(is_leaf r \<longleftrightarrow> (\<forall>(k, s) \<in> set stds. parentId s \<noteq> Some (std_id st)))
    \<and> (is_leaf r \<longrightarrow> child_ids r = [])"
proof
  have "std_id st \<in> fst ` set stds" using node by force
  then show l: "is_leaf r \<longleftrightarrow> (\<forall>(k, s) \<in> set stds. parentId s \<noteq> Some (std_id st))"
    using transform_standard_fields(2) [OF tr]
    by (simp add: build_relationship_maps_def leaf_nodes_iff)
  show "is_leaf r \<longrightarrow> child_ids r = []"
  proof
    assume "is_leaf r"
    with l have "spec_children stds (Some (std_id st)) = []"
      by (simp add: spec_children_empty)
    then show "child_ids r = []"
      using transform_standard_fields(1) [OF tr]
      by (simp add: build_relationship_maps_def map_of_parent_to_children)
  qed
qed


theorem leaf_iff_unreferenced_witness:
  "map_sum id is_leaf
     (transform_standard (build_relationship_maps chain_tree) chain_C2 (example_set chain_tree))
     = Inr True
   \<and> map_sum id child_ids
     (transform_standard (build_relationship_maps chain_tree) chain_C2 (example_set chain_tree))
     = Inr []
   \<and> (std_id chain_C2, chain_C2) \<in> set chain_tree"
proof -
  obtain r where r: "transform_standard (build_relationship_maps chain_tree) chain_C2
      (example_set chain_tree) = Inr r"
    using transform_standard_ok [of "example_set chain_tree" "''DOC_ID''" "''2021''"]
    by (auto simp: example_set_def)
  have n: "(std_id chain_C2, chain_C2) \<in> set chain_tree"
    by (simp add: chain_tree_def chain_C2_def mk_standard_def)
  have "\<forall>(k, s) \<in> set chain_tree. parentId s \<noteq> Some (std_id chain_C2)"
    by (simp add: chain_tree_def chain_R_def chain_C1_def chain_C2_def mk_standard_def)
  with leaf_iff_unreferenced [OF r n] have "is_leaf r" and "child_ids r = []"
    by blast+
  with r n show ?thesis by simp
qed


text \<open>
  The claim as written fails on a node that is its own parent: no other node names it as
  parent, and it is not a leaf.
\<close>

theorem leaf_self_parent_counterexample:
  "map_sum id is_leaf
     (transform_standard (build_relationship_maps self_tree) self_S (example_set self_tree))
     = Inr False
   \<and> List.map_filter (\<lambda>(k, s). parentId s) (filter (\<lambda>(k, s). k \<noteq> std_id self_S) self_tree)
     = []"
  by code_simp


section \<open>The written document\<close>

lemma transform_all_Inr:
  "transform_all p ss xs acc = Inr out
   \<Longrightarrow> \<exists>recs. out = acc @ recs
         \<and> list_all2 (\<lambda>(k, st) r. transform_standard p st ss = Inr r) xs recs"
proof (induction xs arbitrary: acc)
  case Nil
  then show ?case by simp
next
  case (Cons x xs)
  obtain k st where x: "x = (k, st)" by (cases x)
  from Cons.prems x obtain r where r: "transform_standard p st ss = Inr r"
    and rest: "transform_all p ss xs (acc @ [r]) = Inr out"
    by (auto split: sum.splits)
  from Cons.IH [OF rest] obtain recs where "out = (acc @ [r]) @ recs"
    and "list_all2 (\<lambda>(k, st) r. transform_standard p st ss = Inr r) xs recs"
    by blast
  with r x have "out = acc @ (r # recs)
      \<and> list_all2 (\<lambda>(k, st) r. transform_standard p st ss = Inr r) (x # xs) (r # recs)"
    by simp
  then show ?case by blast
qed

lemma transform_all_ok:
  assumes "doc_id (document ss) = Some d" and "valid (document ss) = Some v"
  shows "\<exists>out. transform_all p ss xs acc = Inr out"
proof (induction xs arbitrary: acc)
  case Nil
  then show ?case by simp
next
  case (Cons x xs)
  obtain k st where x: "x = (k, st)" by (cases x)
  obtain r where "transform_standard p st ss = Inr r"
    using transform_standard_ok [OF assms] by blast
  with Cons.IH [of "acc @ [r]"] x show ?case by simp
qed


lemma model_dump_keys:
  "map fst (model_dump by_alias r) =
     [(if by_alias then ''_id'' else ''id''), ''content'', ''standard_set_id'',
      ''standard_set_title'', ''subject'', ''normalized_subject'', ''education_levels'',
      ''document_id'', ''document_valid'', ''publication_status'', ''jurisdiction_id'',
      ''jurisdiction_title'', ''asn_identifier'', ''statement_notation'', ''statement_label'',
      ''depth'', ''is_leaf'', ''is_root'', ''parent_id'', ''root_id'', ''ancestor_ids'',
      ''child_ids'', ''sibling_count'']"
  by (simp add: model_dump_def)



lemma persisted_records_dump:
  "persisted_records (dump_processed_set recs) = map (\<lambda>r. JObj (model_dump False r)) recs"
  by (simp add: persisted_records_def dump_processed_set_def json_field_def json_items_def)

lemma parse_standard_fields:
  assumes "missing_fields r = []"
  shows "\<exists>st. parse_standard r = Some st
      \<and> raw_id r = Some (std_id st)
      \<and> statementNotation st = raw_statementNotation r
      \<and> statementLabel st = raw_statementLabel r
      \<and> asnIdentifier st = raw_asnIdentifier r
      \<and> parentId st = raw_parentId r"
  using assms
  by (auto simp: missing_fields_def parse_standard_def split: if_splits option.splits)

lemma validation_errors_Nil:
  "validation_errors raws = [] \<longleftrightarrow> (\<forall>(k, r) \<in> set raws. missing_fields r = [])"
  by (auto simp: validation_errors_def)

lemma parsed_standards:
  assumes "\<forall>(k, r) \<in> set raws. missing_fields r = []"
  shows "List.map_filter (\<lambda>(k, r). map_option (\<lambda>st. (k, st)) (parse_standard r)) raws
      = map (\<lambda>(k, r). (k, the (parse_standard r))) raws"
  using assms
proof (induction raws)
  case Nil
  then show ?case by simp
next
  case (Cons x raws)
  obtain k r where x: "x = (k, r)" by (cases x)
  with Cons.prems have "missing_fields r = []" by simp
  then obtain st where "parse_standard r = Some st"
    using parse_standard_fields by blast
  with Cons x show ?case by simp
qed

lemma parse_standard_set_Inr:
  assumes "parse_standard_set raw = Inr ss"
  shows "(\<forall>(k, r) \<in> set (standards raw). missing_fields r = [])
      \<and> standards ss = map (\<lambda>(k, r). (k, the (parse_standard r))) (standards raw)
      \<and> normalizedSubject ss = normalizedSubject raw
      \<and> document ss = document raw"
proof -
  from assms have ok: "validation_errors (standards raw) = []"
    by (auto simp: parse_standard_set_def split: if_splits)
  then have all: "\<forall>(k, r) \<in> set (standards raw). missing_fields r = []"
    by (simp add: validation_errors_Nil)
  from assms ok parsed_standards [OF all] show ?thesis
    using all by (auto simp: parse_standard_set_def)
qed








section \<open>Field names of the written document\<close>

lemma record_to_dict_head:
  "record_to_dict r
     = (''_id'', JStr (rec_id r))
       # filter (\<lambda>(k, v). \<not> (k \<in> set optional_fields \<and> v = JNull)) (tl (model_dump True r))"
  by (simp add: record_to_dict_def model_dump_def optional_fields_def)

lemma record_to_dict_keys:
  "set (map fst (record_to_dict r)) \<subseteq> set (map fst (model_dump True r))"
  unfolding record_to_dict_def by auto

text \<open>
  C8. In the document written for the three-node chain every record has its identifier
  under the key \<open>id\<close> and has no key \<open>_id\<close>; the keys of a written record are, for
  every record, the field names below, \<open>id\<close> first. The conversion for the upload, on
  the contrary, writes the identifier under \<open>_id\<close>.
\<close>

theorem persisted_identifier_key:
  "map_sum id (map (\<lambda>rec. (json_field ''id'' rec, json_field ''_id'' rec)) \<circ> persisted_records)
     (process_and_save chain_raw)
     = Inr [(Some (JStr ''R''), None), (Some (JStr ''C1''), None), (Some (JStr ''C2''), None)]
   \<and> map fst (model_dump False r)
     = [''id'', ''content'', ''standard_set_id'', ''standard_set_title'', ''subject'',
        ''normalized_subject'', ''education_levels'', ''document_id'', ''document_valid'',
        ''publication_status'', ''jurisdiction_id'', ''jurisdiction_title'',
        ''asn_identifier'', ''statement_notation'', ''statement_label'', ''depth'',
        ''is_leaf'', ''is_root'', ''parent_id'', ''root_id'', ''ancestor_ids'', ''child_ids'',
        ''sibling_count'']
   \<and> map_of (record_to_dict r) ''_id'' = Some (JStr (rec_id r))
   \<and> map_of (record_to_dict r) ''id'' = None"
proof (intro conjI)
  show "map_sum id (map (\<lambda>rec. (json_field ''id'' rec, json_field ''_id'' rec)) \<circ> persisted_records)
     (process_and_save chain_raw)
     = Inr [(Some (JStr ''R''), None), (Some (JStr ''C1''), None), (Some (JStr ''C2''), None)]"
    by code_simp
  show "map fst (model_dump False r)
     = [''id'', ''content'', ''standard_set_id'', ''standard_set_title'', ''subject'',
        ''normalized_subject'', ''education_levels'', ''document_id'', ''document_valid'',
        ''publication_status'', ''jurisdiction_id'', ''jurisdiction_title'',
        ''asn_identifier'', ''statement_notation'', ''statement_label'', ''depth'',
        ''is_leaf'', ''is_root'', ''parent_id'', ''root_id'', ''ancestor_ids'', ''child_ids'',
        ''sibling_count'']"
    by (simp add: model_dump_keys)
  show "map_of (record_to_dict r) ''_id'' = Some (JStr (rec_id r))"
    by (simp add: record_to_dict_head)
  have "''id'' \<notin> set (map fst (model_dump True r))"
    by (simp add: model_dump_def)
  with record_to_dict_keys [of r] have "''id'' \<notin> set (map fst (record_to_dict r))"
    by blast
  then show "map_of (record_to_dict r) ''id'' = None"
    by (simp add: map_of_eq_None_iff)
qed


section \<open>Malformed nodes\<close>

lemma validation_errors_keys:
  "set (map fst (validation_errors raws))
     = {k. \<exists>r. (k, r) \<in> set raws \<and> missing_fields r \<noteq> []}"
proof (induction raws)
  case Nil
  then show ?case by (simp add: validation_errors_def)
next
  case (Cons x raws)
  obtain k r where x: "x = (k, r)" by (cases x)
  have "validation_errors (x # raws)
      = map (\<lambda>f. (k, f)) (missing_fields r) @ validation_errors raws"
    by (simp add: validation_errors_def x)
  then have "set (map fst (validation_errors (x # raws)))
      = (if missing_fields r = [] then {} else {k}) \<union> set (map fst (validation_errors raws))"
    by (cases "missing_fields r") (auto simp: comp_def)
  with Cons x show ?case by auto
qed

lemma list_all2_map_eq:
  "list_all2 (\<lambda>x y. f x = g y) xs ys \<Longrightarrow> map f xs = map g ys"
  by (induction xs ys rule: list_all2_induct) simp_all

text \<open>
  C2, as the code has it. When a node of the document lacks a required field, the load
  fails as a whole with a \<open>ValueError\<close> around the validation error, which lists the
  key of every offending node with the missing field, and no record is written. When no
  node lacks a required field and the document id and validity year are present, one
  record per node is written, in input order, under the node's id.
\<close>

theorem malformed_node_aborts_load:
  "(validation_errors (standards raw) \<noteq> []
      \<longrightarrow> process_and_save raw
          = Inl (ValueError (ValidationError (validation_errors (standards raw)))))
   \<and> set (map fst (validation_errors (standards raw)))
       = {k. \<exists>node. (k, node) \<in> set (standards raw) \<and> missing_fields node \<noteq> []}
   \<and> (validation_errors (standards raw) = []
        \<and> doc_id (document raw) \<noteq> None \<and> valid (document raw) \<noteq> None
      \<longrightarrow> (\<exists>doc. process_and_save raw = Inr doc
            \<and> map (json_field ''id'') (persisted_records doc)
              = map (\<lambda>(k, node). map_option JStr (raw_id node)) (standards raw)))"
proof (intro conjI impI)
  assume "validation_errors (standards raw) \<noteq> []"
  then show "process_and_save raw
      = Inl (ValueError (ValidationError (validation_errors (standards raw))))"
    by (simp add: process_and_save_def parse_standard_set_def)
next
  show "set (map fst (validation_errors (standards raw)))
       = {k. \<exists>node. (k, node) \<in> set (standards raw) \<and> missing_fields node \<noteq> []}"
    by (rule validation_errors_keys)
next
  assume a: "validation_errors (standards raw) = []
        \<and> doc_id (document raw) \<noteq> None \<and> valid (document raw) \<noteq> None"
  then obtain ss where ss: "parse_standard_set raw = Inr ss"
    by (simp add: parse_standard_set_def)
  note p = parse_standard_set_Inr [OF ss]
  from a p obtain d v where "doc_id (document ss) = Some d" "valid (document ss) = Some v"
    by auto
  then obtain out where out: "process_standard_set ss = Inr out"
    unfolding process_standard_set_def using transform_all_ok by blast
  with ss have doc: "process_and_save raw = Inr (dump_processed_set out)"
    by (simp add: process_and_save_def)
  from out obtain recs where recs: "out = [] @ recs"
    and tr: "list_all2 (\<lambda>(k, st) r.
            transform_standard (build_relationship_maps (standards ss)) st ss = Inr r)
          (standards ss) recs"
    unfolding process_standard_set_def by (blast dest: transform_all_Inr)
  let ?P = "build_relationship_maps (standards ss)"
  from tr p have tr': "list_all2 (\<lambda>(k, node) r.
        transform_standard ?P (the (parse_standard node)) ss = Inr r) (standards raw) recs"
    by (simp add: list_all2_map1 case_prod_unfold)
  have "list_all2 (\<lambda>x r. (case x of (k, node) \<Rightarrow> map_option JStr (raw_id node))
        = json_field ''id'' (JObj (model_dump False r))) (standards raw) recs"
    using tr'
  proof (rule list.rel_mono_strong)
    fix x r
    assume x: "x \<in> set (standards raw)"
      and t: "(case x of (k, node) \<Rightarrow> \<lambda>r.
        transform_standard ?P (the (parse_standard node)) ss = Inr r) r"
    obtain k node where kn: "x = (k, node)" by (cases x)
    with x p have "missing_fields node = []" by auto
    then obtain st where st: "parse_standard node = Some st"
      and f: "raw_id node = Some (std_id st)"
      using parse_standard_fields by blast
    from t kn st have t': "transform_standard ?P st ss = Inr r" by simp
    from transform_standard_fields(3) [OF t'] f kn
    show "(case x of (k, node) \<Rightarrow> map_option JStr (raw_id node))
        = json_field ''id'' (JObj (model_dump False r))"
      by (simp add: json_field_def model_dump_def)
  qed
  then have "map (\<lambda>(k, node). map_option JStr (raw_id node)) (standards raw)
      = map (\<lambda>r. json_field ''id'' (JObj (model_dump False r))) recs"
    by (rule list_all2_map_eq)
  then have "map (json_field ''id'') (persisted_records (dump_processed_set out))
      = map (\<lambda>(k, node). map_option JStr (raw_id node)) (standards raw)"
    by (simp add: persisted_records_dump recs comp_def)
  with doc show "\<exists>doc. process_and_save raw = Inr doc
            \<and> map (json_field ''id'') (persisted_records doc)
              = map (\<lambda>(k, node). map_option JStr (raw_id node)) (standards raw)"
    by blast
qed

theorem malformed_node_aborts_load_witness:
  "validation_errors (standards malformed_raw) = [(''C1'', ''description'')]
   \<and> process_and_save malformed_raw
       = Inl (ValueError (ValidationError [(''C1'', ''description'')]))
   \<and> validation_errors (standards chain_raw) = []
   \<and> (\<exists>doc. process_and_save chain_raw = Inr doc
         \<and> map (json_field ''id'') (persisted_records doc)
           = [Some (JStr ''R''), Some (JStr ''C1''), Some (JStr ''C2'')])"
proof -
  have m: "validation_errors (standards malformed_raw) = [(''C1'', ''description'')]"
    by code_simp
  have c: "validation_errors (standards chain_raw) = []"
    by code_simp
  have dv: "doc_id (document chain_raw) \<noteq> None \<and> valid (document chain_raw) \<noteq> None"
    by (simp add: chain_raw_def example_set_def)
  have ids: "map (\<lambda>(k, node). map_option JStr (raw_id node)) (standards chain_raw)
      = [Some (JStr ''R''), Some (JStr ''C1''), Some (JStr ''C2'')]"
    by code_simp
  from malformed_node_aborts_load [of malformed_raw] m
  have "process_and_save malformed_raw
      = Inl (ValueError (ValidationError [(''C1'', ''description'')]))"
    by simp
  moreover from malformed_node_aborts_load [of chain_raw] c dv ids
  have "\<exists>doc. process_and_save chain_raw = Inr doc
         \<and> map (json_field ''id'') (persisted_records doc)
           = [Some (JStr ''R''), Some (JStr ''C1''), Some (JStr ''C2'')]"
    by simp
  ultimately show ?thesis using m c by blast
qed


text \<open>
  The claim as written fails on the chain whose middle node lacks its description: the
  other two nodes are well-formed, and the result is the error alone, with no record and
  no summary.
\<close>

theorem malformed_node_no_partial_result_counterexample:
  "map_sum id persisted_records (process_and_save malformed_raw)
     = Inl (ValueError (ValidationError [(''C1'', ''description'')]))
   \<and> missing_fields (mk_raw chain_R) = [] \<and> missing_fields (mk_raw chain_C2) = []"
  by code_simp

end
